theory Spec2Isabelle
  imports Main
begin

section \<open>Data model\<close>

text \<open>
  The two modules \<^verbatim>\<open>functions.py\<close> and \<^verbatim>\<open>extract_wikipedia_data.py\<close> carry the same
  definitions of \<^verbatim>\<open>get_categorymembers\<close>, \<^verbatim>\<open>get_page_text\<close>, \<^verbatim>\<open>filter_by_keywords\<close> and
  \<^verbatim>\<open>get_section_text\<close>; one embedding covers both.

  A section of a page has a title, a body text and an ordered list of subsections.
  A page has a namespace number, a title, a summary and its top-level sections.
\<close>

datatype page_section = Section (stitle: string) (stext: string) (ssections: "page_section list")

record page =
  ns :: int
  title :: string
  summary :: string
  sections :: "page_section list"

text \<open>The namespace numbers of the wikipediaapi library that the code compares with.\<close>

definition MAIN :: int where
  "MAIN = 0"

definition CATEGORY :: int where
  "CATEGORY = 14"

text \<open>
  The content service: \<open>wiki c\<close> is the sequence \<^verbatim>\<open>c.categorymembers.values()\<close>, the members
  of category \<open>c\<close> in the order the service lists them. It is an arbitrary function, so the
  category graph may contain cycles.
\<close>

type_synonym service = "page \<Rightarrow> page list"

subsection \<open>Python lists as objects in a store\<close>

text \<open>
  The code passes one list object down the recursion and appends to it in place; the
  value returned by a recursive call is thrown away. A store maps references to the
  current contents of each list object; \<open>fresh\<close> is the next unused reference.
\<close>

type_synonym ref = nat

record 'a store =
  cells :: "ref \<Rightarrow> 'a list"
  fresh :: ref

definition new_list :: "'a store \<Rightarrow> ref \<times> 'a store" where
  "new_list st = (fresh st, st\<lparr>cells := (cells st)(fresh st := []), fresh := Suc (fresh st)\<rparr>)"

definition py_append :: "ref \<Rightarrow> 'a \<Rightarrow> 'a store \<Rightarrow> 'a store" where
  "py_append r x st = st\<lparr>cells := (cells st)(r := cells st r @ [x])\<rparr>"

definition py_extend :: "ref \<Rightarrow> 'a list \<Rightarrow> 'a store \<Rightarrow> 'a store" where
  "py_extend r xs st = st\<lparr>cells := (cells st)(r := cells st r @ xs)\<rparr>"

text \<open>The contents of the list object that a call returned.\<close>

definition contents :: "ref \<times> 'a store \<Rightarrow> 'a list" where
  "contents res = cells (snd res) (fst res)"

section \<open>Category traversal\<close>

text \<open>
  The first loop of \<^verbatim>\<open>get_categorymembers\<close>: every member in namespace MAIN is counted and
  appended to the list object \<open>pages\<close>, every member in namespace CATEGORY is collected in
  the local list \<open>subcategories\<close>, any other member is passed over.
\<close>

fun members_loop ::
  "page list \<Rightarrow> ref \<Rightarrow> page list \<times> int \<times> page store \<Rightarrow> page list \<times> int \<times> page store" where
  "members_loop [] pages (subcategories, n_pages, st) = (subcategories, n_pages, st)"
| "members_loop (p # rest) pages (subcategories, n_pages, st) =
     (if ns p = MAIN then
        members_loop rest pages (subcategories, n_pages + 1, py_append pages p st)
      else if ns p = CATEGORY then
        members_loop rest pages (subcategories @ [p], n_pages, st)
      else members_loop rest pages (subcategories, n_pages, st))"

text \<open>
  \<^verbatim>\<open>get_categorymembers(category, n_pages_per_level_threshold, level, max_level, pages)\<close>.
  The thresholds are Python integers or \<^verbatim>\<open>None\<close>; \<open>pages\<close> is \<^verbatim>\<open>None\<close> or a list object.
  The recursion need not end on a cyclic graph, so the first argument bounds the depth
  of nested calls: with no call left the result is \<open>None\<close>. The printing under
  \<^verbatim>\<open>verbose\<close> does not change the result and is left out.
  \<open>subcategories_loop\<close> is the loop \<^verbatim>\<open>for cat in subcategories\<close>: it calls the function on
  each subcategory with the same list object and drops the returned reference.
\<close>

fun get_categorymembers ::
  "nat \<Rightarrow> service \<Rightarrow> page \<Rightarrow> int option \<Rightarrow> int \<Rightarrow> int option \<Rightarrow> ref option \<Rightarrow> page store
     \<Rightarrow> (ref \<times> page store) option"
and subcategories_loop ::
  "nat \<Rightarrow> service \<Rightarrow> page list \<Rightarrow> int option \<Rightarrow> int \<Rightarrow> int option \<Rightarrow> ref \<Rightarrow> page store
     \<Rightarrow> page store option" where
  "get_categorymembers 0 wiki category n_pages_per_level_threshold level max_level pages st = None"
| "get_categorymembers (Suc k) wiki category n_pages_per_level_threshold level max_level pages st =
     (let (pages, st) = (case pages of None \<Rightarrow> new_list st | Some r \<Rightarrow> (r, st));
          members = wiki category;
          (subcategories, n_pages, st) = members_loop members pages ([], 0, st)
      in if (case n_pages_per_level_threshold of None \<Rightarrow> True | Some t \<Rightarrow> n_pages < t) \<and>
            (case max_level of None \<Rightarrow> True | Some m \<Rightarrow> level < m)
         then map_option (Pair pages)
                (subcategories_loop k wiki subcategories n_pages_per_level_threshold level
                   max_level pages st)
         else Some (pages, st))"
| "subcategories_loop k wiki [] n_pages_per_level_threshold level max_level pages st = Some st"
| "subcategories_loop k wiki (cat # cats) n_pages_per_level_threshold level max_level pages st =
     (case get_categorymembers k wiki cat n_pages_per_level_threshold (level + 1) max_level
             (Some pages) st of
        None \<Rightarrow> None
      | Some (_, st') \<Rightarrow>
          subcategories_loop k wiki cats n_pages_per_level_threshold level max_level pages st')"

section \<open>Section text extraction\<close>

subsection \<open>Strings and the regular-expression search\<close>

text \<open>
  A character stands for a code point below 256. \<^verbatim>\<open>str.lower\<close> maps the letters A to Z
  and the upper-case letters of the Latin-1 block (192 to 222 without the multiplication
  sign 215) to the code point 32 above, and leaves every other code point alone.
\<close>

definition lower_char :: "char \<Rightarrow> char" where
  "lower_char c =
     (let n = (of_char c :: nat) in
      if 65 \<le> n \<and> n \<le> 90 then char_of (n + 32)
      else if 192 \<le> n \<and> n \<le> 222 \<and> n \<noteq> 215 then char_of (n + 32)
      else c)"

definition lower :: "string \<Rightarrow> string" where
  "lower s = map lower_char s"

text \<open>\<^verbatim>\<open>sep.join(xs)\<close>.\<close>

fun join :: "string \<Rightarrow> string list \<Rightarrow> string" where
  "join sep [] = []"
| "join sep [x] = x"
| "join sep (x # y # ys) = x @ sep @ join sep (y # ys)"

text \<open>
  \<^verbatim>\<open>bool(re.search(pattern, s))\<close>. The regular-expression language belongs to the library
  and not to this repository, so the library's search is a parameter \<open>engine\<close> of the
  embedding: \<open>engine pattern s\<close> is \<open>Some True\<close> when the library finds a match,
  \<open>Some False\<close> when it finds none, and \<open>None\<close> when it rejects the pattern with the
  exception \<^verbatim>\<open>re.error\<close>. What the library does on a pattern that consists of literal
  characters and the alternation bar only is written out: the pattern is cut at every bar
  into its alternatives, and the search succeeds when some alternative starts at some
  position of \<open>s\<close> (the end of \<open>s\<close> is a position too, where only the empty alternative
  starts). On a pattern that holds any other special character the answer is the
  engine's, whatever it is.
\<close>

definition metachar :: "char \<Rightarrow> bool" where
  "metachar c = (c \<in> set (''.^$*+?{}[]()'' @ [CHR 0x5C]))"

fun alternatives :: "string \<Rightarrow> string list" where
  "alternatives [] = [[]]"
| "alternatives (c # cs) =
     (if c = CHR ''|'' then [] # alternatives cs
      else (case alternatives cs of [] \<Rightarrow> [[c]] | a # as \<Rightarrow> (c # a) # as))"

fun starts_with :: "string \<Rightarrow> string \<Rightarrow> bool" where
  "starts_with [] s = True"
| "starts_with (c # cs) [] = False"
| "starts_with (c # cs) (d # ds) = (c = d \<and> starts_with cs ds)"

fun search_alternatives :: "string list \<Rightarrow> string \<Rightarrow> bool" where
  "search_alternatives alts [] = list_ex (\<lambda>a. starts_with a []) alts"
| "search_alternatives alts (c # cs) =
     (list_ex (\<lambda>a. starts_with a (c # cs)) alts \<or> search_alternatives alts cs)"

type_synonym regex_engine = "string \<Rightarrow> string \<Rightarrow> bool option"

definition re_search :: "regex_engine \<Rightarrow> string \<Rightarrow> string \<Rightarrow> bool option" where
  "re_search engine pattern s =
     (if list_ex metachar pattern then engine pattern s
      else Some (search_alternatives (alternatives pattern) s))"

text \<open>\<^verbatim>\<open>filter_by_keywords(text, keywords)\<close>: only the text is lower-cased.\<close>

definition filter_by_keywords ::
  "regex_engine \<Rightarrow> string \<Rightarrow> string list \<Rightarrow> bool option" where
  "filter_by_keywords engine txt keywords = re_search engine (join ''|'' keywords) (lower txt)"

subsection \<open>Collecting the text of a section tree\<close>

text \<open>
  \<^verbatim>\<open>get_section_text(section, section_text_list)\<close>: a non-empty body is appended to the
  list object, then the function is called on every subsection with the same list object
  (\<open>subsections_loop\<close>), the returned reference being dropped.
\<close>

fun get_section_text :: "page_section \<Rightarrow> ref option \<Rightarrow> string store \<Rightarrow> ref \<times> string store"
and subsections_loop :: "page_section list \<Rightarrow> ref \<Rightarrow> string store \<Rightarrow> string store" where
  "get_section_text (Section ttl txt subs) section_text_list st =
     (let (section_text_list, st) =
            (case section_text_list of None \<Rightarrow> new_list st | Some r \<Rightarrow> (r, st));
          st = (if txt \<noteq> [] then py_append section_text_list txt st else st);
          st = subsections_loop subs section_text_list st
      in (section_text_list, st))"
| "subsections_loop [] section_text_list st = st"
| "subsections_loop (s # rest) section_text_list st =
     subsections_loop rest section_text_list
       (snd (get_section_text s (Some section_text_list) st))"

text \<open>
  \<^verbatim>\<open>get_page_text(page, keywords, use_summary_if_empty)\<close>. \<open>sections_loop\<close> is the loop over
  the top-level sections: the filter is evaluated only when \<open>keywords\<close> is not \<^verbatim>\<open>None\<close>, and
  an accepted section adds the contents of a new list filled by \<open>get_section_text\<close>.
  The result is \<open>None\<close> only when the library rejects the pattern, an exception that the
  function passes on: it has no failure of its own.
\<close>

fun sections_loop ::
  "regex_engine \<Rightarrow> page_section list \<Rightarrow> string list option \<Rightarrow> ref \<Rightarrow> string store
     \<Rightarrow> string store option" where
  "sections_loop engine [] keywords page_text st = Some st"
| "sections_loop engine (s # rest) keywords page_text st =
     (case (case keywords of None \<Rightarrow> Some True
            | Some ks \<Rightarrow> filter_by_keywords engine (stitle s) ks) of
        None \<Rightarrow> None
      | Some True \<Rightarrow>
          sections_loop engine rest keywords page_text
            (let res = get_section_text s None st
             in py_extend page_text (contents res) (snd res))
      | Some False \<Rightarrow> sections_loop engine rest keywords page_text st)"

definition get_page_text ::
  "regex_engine \<Rightarrow> page \<Rightarrow> string list option \<Rightarrow> bool \<Rightarrow> string store
     \<Rightarrow> (ref \<times> string store) option" where
  "get_page_text engine pg keywords use_summary_if_empty st =
     (let (page_text, st) = new_list st in
      case sections_loop engine (sections pg) keywords page_text st of
        None \<Rightarrow> None
      | Some st \<Rightarrow>
          Some (page_text,
                if use_summary_if_empty \<and> length (cells st page_text) = 0
                then py_append page_text (summary pg) st else st))"

section \<open>The behaviour the specification describes\<close>

text \<open>
  The definitions of this section follow the words of the specification, on plain lists.
  They are what the embedded code is compared with.
\<close>

subsection \<open>Category traversal\<close>

text \<open>The direct content documents and the direct subcategories of a category, in listing order.\<close>

definition direct_documents :: "service \<Rightarrow> page \<Rightarrow> page list" where
  "direct_documents wiki c = filter (\<lambda>p. ns p = MAIN) (wiki c)"

definition direct_subcategories :: "service \<Rightarrow> page \<Rightarrow> page list" where
  "direct_subcategories wiki c = filter (\<lambda>p. ns p = CATEGORY) (wiki c)"

text \<open>
  The descend condition: (countThreshold is unbounded or directDocumentCount is below
  countThreshold) and (maxDepth is unbounded or currentDepth is below maxDepth).
\<close>

definition descend :: "int option \<Rightarrow> int \<Rightarrow> int \<Rightarrow> int option \<Rightarrow> bool" where
  "descend countThreshold directDocumentCount currentDepth maxDepth =
     ((countThreshold = None \<or> directDocumentCount < the countThreshold) \<and>
      (maxDepth = None \<or> currentDepth < the maxDepth))"

text \<open>
  The result ordering: all direct documents of a node first, then the full result of its
  first subcategory, then of its second, and so on; nothing is removed. The first
  argument bounds the depth of the descent as in the code, and the result is \<open>None\<close> when
  the bound is reached.
\<close>

fun traverse ::
  "nat \<Rightarrow> service \<Rightarrow> page \<Rightarrow> int option \<Rightarrow> int \<Rightarrow> int option \<Rightarrow> page list option" where
  "traverse 0 wiki c countThreshold currentDepth maxDepth = None"
| "traverse (Suc k) wiki c countThreshold currentDepth maxDepth =
     (let docs = direct_documents wiki c in
      if descend countThreshold (int (length docs)) currentDepth maxDepth
      then map_option (\<lambda>rs. docs @ concat rs)
             (those (map (\<lambda>sub. traverse k wiki sub countThreshold (currentDepth + 1) maxDepth)
                       (direct_subcategories wiki c)))
      else Some docs)"

text \<open>
  What a call leaves behind that adds \<open>new\<close> to the list object \<open>l\<close>, or to a new list
  object when \<open>l\<close> is \<^verbatim>\<open>None\<close>: the returned reference and the store.
\<close>

definition extended :: "ref option \<Rightarrow> 'a list \<Rightarrow> 'a store \<Rightarrow> ref \<times> 'a store" where
  "extended l new st =
     (case l of
        None \<Rightarrow> (fresh st, py_extend (fresh st) new (snd (new_list st)))
      | Some r \<Rightarrow> (r, py_extend r new st))"

subsection \<open>Section text extraction\<close>

text \<open>The sections of a section tree in depth-first pre-order, each section once.\<close>

fun preorder :: "page_section \<Rightarrow> page_section list" where
  "preorder (Section ttl body subs) = Section ttl body subs # concat (map preorder subs)"

text \<open>The bodies of a sequence of sections, the empty ones left out.\<close>

definition nonempty_bodies :: "page_section list \<Rightarrow> string list" where
  "nonempty_bodies ss = filter (\<lambda>b. b \<noteq> []) (map stext ss)"

text \<open>The number of sections of a section tree.\<close>

fun section_count :: "page_section \<Rightarrow> nat" where
  "section_count (Section ttl body subs) = Suc (sum_list (map section_count subs))"

text \<open>
  The inclusion test of a top-level section: included if the keyword filter is absent, or
  if the filter of the code accepts the title.
\<close>

definition included ::
  "regex_engine \<Rightarrow> string list option \<Rightarrow> page_section \<Rightarrow> bool option" where
  "included engine keywordFilter s =
     (case keywordFilter of
        None \<Rightarrow> Some True
      | Some ks \<Rightarrow> filter_by_keywords engine (stitle s) ks)"

text \<open>
  The extracted text: the non-empty bodies of every included top-level section and of all
  its descendants, in pre-order; the summary alone when that is empty and the fallback
  is on.
\<close>

definition extracted_text ::
  "regex_engine \<Rightarrow> page \<Rightarrow> string list option \<Rightarrow> bool \<Rightarrow> string list" where
  "extracted_text engine document keywordFilter useSummaryFallback =
     (let out = nonempty_bodies (concat (map preorder
                  (filter (\<lambda>s. included engine keywordFilter s = Some True) (sections document))))
      in if useSummaryFallback \<and> out = [] then [summary document] else out)"

subsection \<open>Example inputs\<close>

definition empty_store :: "'a store" where
  "empty_store = \<lparr>cells = (\<lambda>_. []), fresh = 0\<rparr>"

definition doc :: "string \<Rightarrow> page" where
  "doc t = \<lparr>ns = 0, title = t, summary = [], sections = []\<rparr>"

definition cat :: "string \<Rightarrow> page" where
  "cat t = \<lparr>ns = 14, title = t, summary = [], sections = []\<rparr>"

text \<open>
  Category Mythology with two direct documents and the subcategory Norse, which has three
  documents and no subcategory.
\<close>

definition mythology_wiki :: service where
  "mythology_wiki c =
     (if title c = ''Category:Mythology''
      then [doc ''Myth'', doc ''Legend'', cat ''Category:Norse'']
      else if title c = ''Category:Norse'' then [doc ''Odin'', doc ''Thor'', doc ''Loki'']
      else [])"

text \<open>
  A document listed by a category and by its subcategory, beside a member that is neither
  a document nor a category (a file, namespace 6).
\<close>

definition shared_wiki :: service where
  "shared_wiki c =
     (if title c = ''Category:A''
      then [doc ''X'', \<lparr>ns = 6, title = ''File:X.png'', summary = [], sections = []\<rparr>,
            cat ''Category:B'']
      else if title c = ''Category:B'' then [doc ''X'']
      else [])"

text \<open>A cyclic graph: every category lists one document and the category Loop.\<close>

definition loop_wiki :: service where
  "loop_wiki c = [doc ''D'', cat ''Category:Loop'']"

text \<open>A store whose list object 0 already holds one page.\<close>

definition old_store :: "page store" where
  "old_store = \<lparr>cells = (\<lambda>_. [])(0 := [doc ''Old'']), fresh = 1\<rparr>"

text \<open>The page Ragnarok of the specification's scenario, and a page without sections.\<close>

definition ragnarok :: page where
  "ragnarok = \<lparr>ns = 0, title = ''Ragnarok'', summary = ''S'',
     sections = [Section ''Plot'' ''B1'' [Section ''Aftermath'' ''B2'' []],
                 Section ''Reception'' ''B3'' []]\<rparr>"

definition stub :: page where
  "stub = \<lparr>ns = 0, title = ''Stub'', summary = ''Only a lead'', sections = []\<rparr>"

text \<open>
  A page whose only top-level section has an empty body and a subsection with a body, and
  a page with an empty summary whose only section has an empty body.
\<close>

definition hollow :: page where
  "hollow = \<lparr>ns = 0, title = ''Hollow'', summary = ''S'',
     sections = [Section ''Overview'' [] [Section ''Detail'' ''B4'' []]]\<rparr>"

definition blank :: page where
  "blank = \<lparr>ns = 0, title = ''Blank'', summary = [], sections = [Section ''Notes'' [] []]\<rparr>"

text \<open>
  An engine for the examples. It answers as the library does on the pattern \<^verbatim>\<open>plot$\<close> (the
  string ends with plot, a final line break apart) and on the pattern \<^verbatim>\<open>^xyz$\<close> (the string
  is xyz, a final line break apart); it is given no other pattern with a special
  character.
\<close>

definition ends_with :: "string \<Rightarrow> string \<Rightarrow> bool" where
  "ends_with suffix s = starts_with (rev suffix) (rev s)"

definition example_engine :: regex_engine where
  "example_engine pattern s =
     (if pattern = ''plot$''
      then Some (ends_with ''plot'' s \<or> ends_with (''plot'' @ [CHR 0x0A]) s)
      else if pattern = ''^xyz$'' then Some (s = ''xyz'' \<or> s = ''xyz'' @ [CHR 0x0A])
      else None)"

section \<open>The code against the specification: category traversal\<close>

lemma py_extend_twice: "py_extend r ys (py_extend r xs st) = py_extend r (xs @ ys) st"
  by (simp add: py_extend_def)

lemma py_extend_nil: "py_extend r [] st = st"
  by (simp add: py_extend_def)

lemma contents_extended_None: "contents (extended None new st) = new"
  by (simp add: contents_def extended_def py_extend_def new_list_def)

text \<open>The first loop counts and appends the documents and collects the subcategories.\<close>

lemma members_loop_eq:
  "members_loop ms r (subs, n, st) =
     (subs @ filter (\<lambda>p. ns p = CATEGORY) ms, n + int (length (filter (\<lambda>p. ns p = MAIN) ms)),
      py_extend r (filter (\<lambda>p. ns p = MAIN) ms) st)"
proof (induction ms arbitrary: subs n st)
  case Nil
  show ?case by (simp add: py_extend_def)
next
  case (Cons p ms)
  show ?case by (simp add: Cons.IH py_extend_def py_append_def MAIN_def CATEGORY_def)
qed

text \<open>
  The loop over the subcategories adds the result of each subcategory in turn, provided
  the calls it makes do.
\<close>

lemma subcategories_loop_eq:
  assumes "\<And>c st. get_categorymembers k wiki c thr (lvl + 1) ml (Some r) st =
             map_option (\<lambda>new. extended (Some r) new st) (traverse k wiki c thr (lvl + 1) ml)"
  shows "subcategories_loop k wiki cats thr lvl ml r st =
     map_option (\<lambda>rs. py_extend r (concat rs) st)
       (those (map (\<lambda>sub. traverse k wiki sub thr (lvl + 1) ml) cats))"
proof (induction cats arbitrary: st)
  case Nil
  show ?case by (simp add: py_extend_nil)
next
  case (Cons cat cats)
  show ?case
  proof (cases "traverse k wiki cat thr (lvl + 1) ml")
    case None
    then show ?thesis by (simp add: assms)
  next
    case (Some new)
    then show ?thesis
      by (simp add: assms Cons.IH extended_def py_extend_twice option.map_comp comp_def)
  qed
qed

text \<open>
  The whole function: it returns when \<open>traverse\<close> does, and then it has added exactly the
  sequence \<open>traverse\<close> gives to the list object it was called with (or to a new one).
\<close>

lemma get_categorymembers_eq:
  "get_categorymembers k wiki c thr lvl ml pages st =
     map_option (\<lambda>new. extended pages new st) (traverse k wiki c thr lvl ml)"
proof (induction k arbitrary: c lvl pages st)
  case 0
  show ?case by simp
next
  case (Suc k)
  have loop: "subcategories_loop k wiki cats thr lvl ml r st' =
     map_option (\<lambda>rs. py_extend r (concat rs) st')
       (those (map (\<lambda>sub. traverse k wiki sub thr (lvl + 1) ml) cats))" for cats r st'
    by (rule subcategories_loop_eq) (rule Suc.IH)
  have cond: "((case thr of None \<Rightarrow> True | Some t \<Rightarrow> n < t) \<and>
            (case ml of None \<Rightarrow> True | Some m \<Rightarrow> lvl < m)) = descend thr n lvl ml" for n
    by (simp add: descend_def split: option.splits)
  show ?case
  proof (cases pages)
    case None
    show ?thesis
      by (simp add: None new_list_def members_loop_eq cond loop direct_documents_def
          direct_subcategories_def extended_def py_extend_def Let_def option.map_comp comp_def)
  next
    case (Some r)
    show ?thesis
      by (simp add: Some members_loop_eq cond loop direct_documents_def
          direct_subcategories_def extended_def py_extend_def Let_def option.map_comp comp_def)
  qed
qed

lemma get_categorymembers_contents:
  "map_option contents (get_categorymembers k wiki c thr lvl ml None st) =
     traverse k wiki c thr lvl ml"
  by (simp add: get_categorymembers_eq option.map_comp comp_def contents_extended_None
      option.map_ident)

text \<open>
  With a finite maximum depth the descent ends on every graph: a call at depth \<open>lvl\<close>
  needs no more than \<open>m - lvl\<close> nested calls below it.
\<close>

lemma those_map_not_None:
  assumes "\<And>x. x \<in> set xs \<Longrightarrow> f x \<noteq> None"
  shows "those (map f xs) \<noteq> None"
  using assms
proof (induction xs)
  case Nil
  show ?case by simp
next
  case (Cons x xs)
  then show ?case by (auto split: option.splits)
qed

lemma traverse_returns:
  "nat (m - lvl) < k \<Longrightarrow> traverse k wiki c thr lvl (Some m) \<noteq> None"
proof (induction k arbitrary: c lvl)
  case 0
  then show ?case by simp
next
  case (Suc k)
  show ?case
  proof (cases "descend thr (int (length (direct_documents wiki c))) lvl (Some m)")
    case False
    then show ?thesis by (simp add: Let_def)
  next
    case True
    then have "lvl < m" by (simp add: descend_def)
    with Suc.prems have "nat (m - (lvl + 1)) < k" by linarith
    then have "traverse k wiki sub thr (lvl + 1) (Some m) \<noteq> None" for sub
      by (rule Suc.IH)
    then have "those (map (\<lambda>sub. traverse k wiki sub thr (lvl + 1) (Some m))
                  (direct_subcategories wiki c)) \<noteq> None"
      by (intro those_map_not_None)
    with True show ?thesis by (simp add: Let_def)
  qed
qed

text \<open>Without bounds the descent through the cyclic graph never ends, whatever the bound on the nesting.\<close>

lemma traverse_diverges:
  "traverse k loop_wiki c None lvl None = None"
proof (induction k arbitrary: c lvl)
  case 0
  show ?case by simp
next
  case (Suc k)
  have "direct_subcategories loop_wiki c = [cat ''Category:Loop'']"
    by (simp add: direct_subcategories_def loop_wiki_def cat_def doc_def CATEGORY_def)
  then show ?case by (simp add: Let_def descend_def Suc.IH)
qed

lemma loop_wiki_bounded:
  "map_option contents (get_categorymembers (Suc (Suc (Suc 0))) loop_wiki (cat ''Category:Loop'')
      None 0 (Some 2) None empty_store) = Some [doc ''D'', doc ''D'', doc ''D'']"
  by code_simp

lemma loop_wiki_unbounded:
  "get_categorymembers k loop_wiki c None lvl None pages st = None"
  unfolding get_categorymembers_eq by (simp add: traverse_diverges)

section \<open>Claims on the category traversal\<close>

text \<open>
  C1: at every category node the function descends into the subcategories exactly when
  (the threshold is \<^verbatim>\<open>None\<close> or the number of direct documents is below it) and (the maximum
  level is \<^verbatim>\<open>None\<close> or the level is below it). When the condition holds, the result is the
  direct documents followed by what the function returns on each subcategory, one level
  deeper and under the same bounds; when it fails, the result is the direct documents
  alone, so no subcategory contributes anything.
\<close>

theorem C1_descend_condition:
  "map_option contents
     (get_categorymembers (Suc k) wiki c countThreshold currentDepth maxDepth None st) =
   (if descend countThreshold (int (length (direct_documents wiki c))) currentDepth maxDepth
    then map_option (\<lambda>rs. direct_documents wiki c @ concat rs)
           (those (map (\<lambda>sub. map_option contents
                          (get_categorymembers k wiki sub countThreshold (currentDepth + 1)
                             maxDepth None st))
                     (direct_subcategories wiki c)))
    else Some (direct_documents wiki c))"
  unfolding get_categorymembers_contents by (simp add: Let_def)

theorem C1_descend_condition_witness:
  "map_option contents
     (get_categorymembers (Suc (Suc 0)) mythology_wiki (cat ''Category:Mythology'') (Some 2) 0 None
        None empty_store) = Some [doc ''Myth'', doc ''Legend''] \<and>
   map_option contents
     (get_categorymembers (Suc (Suc 0)) mythology_wiki (cat ''Category:Mythology'') (Some 3) 0 (Some 1)
        None empty_store) = Some [doc ''Myth'', doc ''Legend'', doc ''Odin'', doc ''Thor'', doc ''Loki'']"
proof -
  have docs: "direct_documents mythology_wiki (cat ''Category:Mythology'') = [doc ''Myth'', doc ''Legend'']"
    by (simp add: direct_documents_def mythology_wiki_def cat_def doc_def MAIN_def)
  have subs: "direct_subcategories mythology_wiki (cat ''Category:Mythology'') = [cat ''Category:Norse'']"
    by (simp add: direct_subcategories_def mythology_wiki_def cat_def doc_def CATEGORY_def)
  have norse: "map_option contents
      (get_categorymembers (Suc 0) mythology_wiki (cat ''Category:Norse'') (Some 3) (0 + 1) (Some 1)
         None empty_store) = Some [doc ''Odin'', doc ''Thor'', doc ''Loki'']"
    by code_simp
  have a: "\<not> descend (Some 2) (int (length [doc ''Myth'', doc ''Legend''])) 0 None"
    by (simp add: descend_def)
  have b: "descend (Some 3) (int (length [doc ''Myth'', doc ''Legend''])) 0 (Some 1)"
    by (simp add: descend_def)
  show ?thesis
    using C1_descend_condition [of "Suc 0" mythology_wiki "cat ''Category:Mythology''" "Some 2" 0 None empty_store]
      C1_descend_condition [of "Suc 0" mythology_wiki "cat ''Category:Mythology''" "Some 3" 0 "Some 1" empty_store]
    by (simp only: docs subs norse a b if_True if_False list.map those.simps option.case option.map concat.simps append_Nil2 append.simps)
qed

text \<open>
  C2: whenever the function returns, the returned sequence is the pre-order sequence of
  \<open>traverse\<close>: the direct documents of a node in listing order, then the whole result of
  its first subcategory, then of its second, and so on, with nothing removed. For the
  category Mythology (two documents, one subcategory with three documents) and no bounds
  the result is the two documents followed by the three; a document listed by a category
  and by its subcategory is returned twice.
\<close>

theorem C2_preorder_documents_first:
  "map_option contents
     (get_categorymembers k wiki c countThreshold currentDepth maxDepth None st) =
   traverse k wiki c countThreshold currentDepth maxDepth \<and>
   map_option contents
     (get_categorymembers (Suc (Suc j)) mythology_wiki (cat ''Category:Mythology'') None 0 None
        None empty_store) =
   Some [doc ''Myth'', doc ''Legend'', doc ''Odin'', doc ''Thor'', doc ''Loki''] \<and>
   map_option contents
     (get_categorymembers (Suc (Suc j)) shared_wiki (cat ''Category:A'') None 0 None
        None empty_store) = Some [doc ''X'', doc ''X'']"
  unfolding get_categorymembers_contents
  by (simp add: direct_documents_def direct_subcategories_def mythology_wiki_def shared_wiki_def
      cat_def doc_def MAIN_def CATEGORY_def descend_def)

text \<open>
  C7: with maximum level 0 a call at level 0 (or any level that is not negative) returns
  exactly the direct documents of the category in listing order, for every threshold; with
  threshold 0 it does so for every level and every maximum level, since no count is
  below 0.
\<close>

theorem C7_zero_bounds:
  "(0 \<le> currentDepth \<longrightarrow>
      map_option contents
        (get_categorymembers (Suc k) wiki c countThreshold currentDepth (Some 0) None st) =
      Some (direct_documents wiki c)) \<and>
   map_option contents
     (get_categorymembers (Suc k) wiki c (Some 0) currentDepth maxDepth None st) =
   Some (direct_documents wiki c)"
  unfolding get_categorymembers_contents by (simp add: Let_def descend_def)

theorem C7_zero_bounds_witness:
  "(0::int) \<le> 0 \<and>
   map_option contents
     (get_categorymembers (Suc 0) mythology_wiki (cat ''Category:Mythology'') None 0 (Some 0)
        None empty_store) = Some [doc ''Myth'', doc ''Legend''] \<and>
   map_option contents
     (get_categorymembers (Suc 0) mythology_wiki (cat ''Category:Mythology'') (Some 0) 0 None
        None empty_store) = Some [doc ''Myth'', doc ''Legend'']"
proof -
  have docs: "direct_documents mythology_wiki (cat ''Category:Mythology'') = [doc ''Myth'', doc ''Legend'']"
    by (simp add: direct_documents_def mythology_wiki_def cat_def doc_def MAIN_def)
  have h: "(0::int) \<le> 0" by simp
  show ?thesis
    using C7_zero_bounds [of 0 0 mythology_wiki "cat ''Category:Mythology''" None empty_store None]
    by (simp only: docs h simp_thms)
qed

text \<open>
  C8: with a finite maximum level the function returns on every graph, cyclic or not:
  every nested call is one level deeper and the descent needs the level to be below the
  maximum, so a nesting depth of one more than the maximum level minus the starting
  level is enough, and so is every larger one.
\<close>

theorem C8_bounded_depth_returns:
  "\<exists>res. get_categorymembers (Suc (nat (maxDepth - currentDepth) + j)) wiki c countThreshold
            currentDepth (Some maxDepth) pages st = Some res"
proof -
  have "nat (maxDepth - currentDepth) < Suc (nat (maxDepth - currentDepth) + j)"
    by simp
  then have "traverse (Suc (nat (maxDepth - currentDepth) + j)) wiki c countThreshold
               currentDepth (Some maxDepth) \<noteq> None"
    by (rule traverse_returns)
  then show ?thesis
    unfolding get_categorymembers_eq by (auto simp del: traverse.simps)
qed

text \<open>
  C9: a call that is given a list object returns that same object; its earlier contents
  are still there as a prefix, followed by exactly the documents that the same call
  returns when it is given no list; no other list object is changed and none is created.
\<close>

theorem C9_accumulator_extended:
  assumes "get_categorymembers k wiki c countThreshold currentDepth maxDepth (Some r) st = Some res"
  shows "fst res = r \<and>
         (\<exists>new. cells (snd res) r = cells st r @ new \<and>
                map_option contents
                  (get_categorymembers k wiki c countThreshold currentDepth maxDepth None st) =
                Some new) \<and>
         (\<forall>r'. r' \<noteq> r \<longrightarrow> cells (snd res) r' = cells st r') \<and>
         fresh (snd res) = fresh st"
proof -
  from assms obtain new where
    t: "traverse k wiki c countThreshold currentDepth maxDepth = Some new" and
    res: "res = extended (Some r) new st"
    unfolding get_categorymembers_eq by auto
  show ?thesis
    unfolding get_categorymembers_contents
    by (simp add: t res extended_def py_extend_def)
qed

theorem C9_accumulator_extended_witness:
  "\<exists>res. get_categorymembers (Suc (Suc 0)) mythology_wiki (cat ''Category:Mythology'') None 0 None
            (Some 0) old_store = Some res \<and>
         fst res = 0 \<and>
         cells (snd res) 0 =
           [doc ''Old'', doc ''Myth'', doc ''Legend'', doc ''Odin'', doc ''Thor'', doc ''Loki''] \<and>
         cells (snd res) 1 = [] \<and> fresh (snd res) = 1"
proof -
  have "\<exists>res. get_categorymembers (Suc (Suc 0)) mythology_wiki (cat ''Category:Mythology'') None 0
            None (Some 0) old_store = Some res"
    by (simp add: mythology_wiki_def cat_def doc_def MAIN_def CATEGORY_def)
  then obtain res where run:
    "get_categorymembers (Suc (Suc 0)) mythology_wiki (cat ''Category:Mythology'') None 0
            None (Some 0) old_store = Some res" ..
  have new: "map_option contents
      (get_categorymembers (Suc (Suc 0)) mythology_wiki (cat ''Category:Mythology'') None 0 None
         None old_store) = Some [doc ''Myth'', doc ''Legend'', doc ''Odin'', doc ''Thor'', doc ''Loki'']"
    by code_simp
  have old: "cells old_store 0 = [doc ''Old'']" "cells old_store 1 = []" "fresh old_store = 1"
    by (simp_all add: old_store_def)
  from C9_accumulator_extended [OF run]
  have "fst res = 0" and
    "\<exists>new. cells (snd res) 0 = cells old_store 0 @ new \<and>
       map_option contents
         (get_categorymembers (Suc (Suc 0)) mythology_wiki (cat ''Category:Mythology'') None 0 None
            None old_store) = Some new" and
    "\<forall>r'. r' \<noteq> 0 \<longrightarrow> cells (snd res) r' = cells old_store r'" and
    "fresh (snd res) = fresh old_store"
    by blast+
  then have "fst res = 0 \<and>
         cells (snd res) 0 =
           [doc ''Old'', doc ''Myth'', doc ''Legend'', doc ''Odin'', doc ''Thor'', doc ''Loki''] \<and>
         cells (snd res) 1 = [] \<and> fresh (snd res) = 1"
    by (auto simp only: new old option.inject append.simps) 
  with run show ?thesis by blast
qed

section \<open>The code against the specification: section text extraction\<close>

lemma nonempty_bodies_append:
  "nonempty_bodies (xs @ ys) = nonempty_bodies xs @ nonempty_bodies ys"
  by (simp add: nonempty_bodies_def)

lemma nonempty_bodies_concat:
  "nonempty_bodies (concat xss) = concat (map nonempty_bodies xss)"
  by (induction xss) (simp_all add: nonempty_bodies_append, simp add: nonempty_bodies_def)

text \<open>
  \<open>get_section_text\<close> adds the non-empty bodies of the section tree, in pre-order, to the
  list object it is given or to a new one.
\<close>

lemma subsections_loop_eq:
  assumes "\<And>s st. s \<in> set ss \<Longrightarrow>
             get_section_text s (Some r) st = extended (Some r) (nonempty_bodies (preorder s)) st"
  shows "subsections_loop ss r st = py_extend r (nonempty_bodies (concat (map preorder ss))) st"
  using assms
proof (induction ss arbitrary: st)
  case Nil
  show ?case by (simp add: py_extend_nil nonempty_bodies_def)
next
  case (Cons s ss)
  have "subsections_loop ss r st' =
          py_extend r (nonempty_bodies (concat (map preorder ss))) st'" for st'
    by (rule Cons.IH) (simp add: Cons.prems)
  then show ?case
    by (simp add: Cons.prems extended_def py_extend_twice nonempty_bodies_append)
qed

lemma get_section_text_eq:
  "get_section_text s l st = extended l (nonempty_bodies (preorder s)) st"
proof (induction s arbitrary: l st)
  case (Section ttl body subs)
  have loop: "subsections_loop subs r st' =
          py_extend r (nonempty_bodies (concat (map preorder subs))) st'" for r st'
    by (rule subsections_loop_eq) (rule Section.IH)
  show ?case
    by (cases l)
      (simp_all add: loop new_list_def extended_def py_extend_def py_append_def
        nonempty_bodies_def)
qed

text \<open>
  The loop over the top-level sections: it fails exactly when the library rejects the
  pattern at some title, and otherwise it adds the text of the included sections to the list \<open>page_text\<close>.
\<close>

lemma sections_loop_step:
  "sections_loop engine (s # rest) kws r st =
     (case included engine kws s of
        None \<Rightarrow> None
      | Some True \<Rightarrow>
          sections_loop engine rest kws r
            (py_extend r (nonempty_bodies (preorder s))
               (py_extend (fresh st) (nonempty_bodies (preorder s)) (snd (new_list st))))
      | Some False \<Rightarrow> sections_loop engine rest kws r st)"
  by (simp add: included_def get_section_text_eq extended_def contents_def py_extend_def
      new_list_def Let_def split: option.splits bool.splits)

lemma sections_loop_None_iff:
  "sections_loop engine ss kws r st = None \<longleftrightarrow> list_ex (\<lambda>s. included engine kws s = None) ss"
proof (induction ss arbitrary: st)
  case Nil
  show ?case by simp
next
  case (Cons s ss)
  show ?case
    unfolding sections_loop_step
    by (simp add: Cons.IH split: option.splits bool.splits)
qed

lemma sections_loop_Some:
  assumes "sections_loop engine ss kws r st = Some st'" and "r < fresh st"
  shows "cells st' r = cells st r @ nonempty_bodies (concat (map preorder
            (filter (\<lambda>s. included engine kws s = Some True) ss)))"
  using assms
proof (induction ss arbitrary: st)
  case Nil
  then show ?case by (simp add: nonempty_bodies_def)
next
  case (Cons s ss)
  show ?case
  proof (cases "included engine kws s")
    case None
    with Cons.prems show ?thesis by (simp add: sections_loop_step del: sections_loop.simps)
  next
    case (Some b)
    show ?thesis
    proof (cases b)
      case True
      let ?st1 = "py_extend r (nonempty_bodies (preorder s))
               (py_extend (fresh st) (nonempty_bodies (preorder s)) (snd (new_list st)))"
      from Cons.prems Some True have run: "sections_loop engine ss kws r ?st1 = Some st'"
        by (simp add: sections_loop_step del: sections_loop.simps)
      have fr: "r < fresh ?st1"
        using Cons.prems(2) by (simp add: py_extend_def new_list_def)
      have c1: "cells ?st1 r = cells st r @ nonempty_bodies (preorder s)"
        using Cons.prems(2) by (simp add: py_extend_def new_list_def)
      show ?thesis
        using Cons.IH [OF run fr] by (simp add: c1 Some True nonempty_bodies_append)
    next
      case False
      from Cons.prems Some False have run: "sections_loop engine ss kws r st = Some st'"
        by (simp add: sections_loop_step del: sections_loop.simps)
      show ?thesis
        using Cons.IH [OF run Cons.prems(2)] by (simp add: Some False)
    qed
  qed
qed

lemma get_page_text_None_iff:
  "get_page_text engine pg kws fb st = None \<longleftrightarrow>
     list_ex (\<lambda>s. included engine kws s = None) (sections pg)"
proof -
  have "get_page_text engine pg kws fb st = None \<longleftrightarrow>
          sections_loop engine (sections pg) kws (fresh st) (snd (new_list st)) = None"
    by (simp add: get_page_text_def new_list_def split: option.splits)
  then show ?thesis by (simp only: sections_loop_None_iff)
qed

lemma get_page_text_Some:
  assumes "get_page_text engine pg kws fb st = Some res"
  shows "contents res = extracted_text engine pg kws fb"
proof -
  let ?st0 = "snd (new_list st)"
  from assms obtain st' where
    run: "sections_loop engine (sections pg) kws (fresh st) ?st0 = Some st'" and
    res: "res = (fresh st, if fb \<and> length (cells st' (fresh st)) = 0
                  then py_append (fresh st) (summary pg) st' else st')"
    by (auto simp: get_page_text_def new_list_def split: option.splits)
  have "fresh st < fresh ?st0"
    by (simp add: new_list_def)
  from sections_loop_Some [OF run this]
  have "cells st' (fresh st) = nonempty_bodies (concat (map preorder
            (filter (\<lambda>s. included engine kws s = Some True) (sections pg))))"
    by (simp add: new_list_def)
  then show ?thesis
    by (simp add: res contents_def extracted_text_def py_append_def Let_def)
qed

lemma get_page_text_eq:
  "map_option contents (get_page_text engine pg kws fb st) =
     (if list_ex (\<lambda>s. included engine kws s = None) (sections pg) then None
      else Some (extracted_text engine pg kws fb))"
proof (cases "get_page_text engine pg kws fb st")
  case None
  then show ?thesis by (simp add: get_page_text_None_iff)
next
  case (Some res)
  then have "\<not> list_ex (\<lambda>s. included engine kws s = None) (sections pg)"
    using get_page_text_None_iff [of engine pg kws fb st] by simp
  with Some show ?thesis by (simp add: get_page_text_Some)
qed

text \<open>The empty pattern is found in every string.\<close>

lemma search_alternatives_empty: "search_alternatives [[]] s = True"
  by (cases s) simp_all

lemma filter_by_keywords_no_keywords: "filter_by_keywords engine t [] = Some True"
  by (simp add: filter_by_keywords_def re_search_def search_alternatives_empty)

lemma sections_loop_no_keywords:
  "sections_loop engine ss (Some []) r st = sections_loop engine ss None r st"
  by (induction ss arbitrary: st) (simp_all add: filter_by_keywords_no_keywords)

text \<open>The filter does not depend on the letter case of the title.\<close>

lemma lower_char_idem: "lower_char (lower_char c) = lower_char c"
  by (simp add: lower_char_def Let_def)

lemma lower_idem: "lower (lower s) = lower s"
  by (simp add: lower_def lower_char_idem)

lemma filter_by_keywords_title_case:
  "filter_by_keywords engine (lower t) ks = filter_by_keywords engine t ks"
  by (simp add: filter_by_keywords_def lower_idem)

text \<open>
  The search finds a pattern of literal alternatives exactly when one of the alternatives
  occurs in the string as a contiguous piece.
\<close>

lemma starts_with_iff: "starts_with a s \<longleftrightarrow> (\<exists>ss. s = a @ ss)"
  by (induction a s rule: starts_with.induct) auto

lemma search_alternatives_iff:
  "search_alternatives alts s \<longleftrightarrow> (\<exists>a \<in> set alts. \<exists>ps ss. s = ps @ a @ ss)"
proof (induction s)
  case Nil
  show ?case by (auto simp: list_ex_iff starts_with_iff)
next
  case (Cons c cs)
  have "(\<exists>ps ss. c # cs = ps @ a @ ss) \<longleftrightarrow>
          (\<exists>ss. c # cs = a @ ss) \<or> (\<exists>ps ss. cs = ps @ a @ ss)" for a
  proof
    assume "\<exists>ps ss. c # cs = ps @ a @ ss"
    then obtain ps ss where e: "c # cs = ps @ a @ ss" by blast
    show "(\<exists>ss. c # cs = a @ ss) \<or> (\<exists>ps ss. cs = ps @ a @ ss)"
    proof (cases ps)
      case Nil
      with e show ?thesis by auto
    next
      case (Cons p ps')
      with e have "cs = ps' @ a @ ss" by simp
      then show ?thesis by blast
    qed
  next
    assume "(\<exists>ss. c # cs = a @ ss) \<or> (\<exists>ps ss. cs = ps @ a @ ss)"
    then show "\<exists>ps ss. c # cs = ps @ a @ ss"
    proof
      assume "\<exists>ss. c # cs = a @ ss"
      then obtain ss where "c # cs = [] @ a @ ss" by auto
      then show ?thesis by blast
    next
      assume "\<exists>ps ss. cs = ps @ a @ ss"
      then obtain ps ss where "c # cs = (c # ps) @ a @ ss" by auto
      then show ?thesis by blast
    qed
  qed
  note step = this
  have "search_alternatives alts (c # cs) \<longleftrightarrow>
          (\<exists>a \<in> set alts. (\<exists>ss. c # cs = a @ ss) \<or> (\<exists>ps ss. cs = ps @ a @ ss))"
    unfolding search_alternatives.simps Cons.IH list_ex_iff starts_with_iff by blast
  then show ?case by (simp only: step)
qed

text \<open>Joining keywords without a bar and cutting the pattern again gives the keywords back.\<close>

lemma alternatives_literal: "CHR ''|'' \<notin> set k \<Longrightarrow> alternatives k = [k]"
  by (induction k) auto

lemma alternatives_bar:
  "CHR ''|'' \<notin> set k \<Longrightarrow> alternatives (k @ CHR ''|'' # rest) = k # alternatives rest"
  by (induction k) auto

lemma alternatives_join:
  "ks \<noteq> [] \<Longrightarrow> \<forall>k \<in> set ks. CHR ''|'' \<notin> set k \<Longrightarrow> alternatives (join ''|'' ks) = ks"
proof (induction "''|''" ks rule: join.induct)
  case 1
  then show ?case by simp
next
  case (2 x)
  then show ?case by (simp add: alternatives_literal)
next
  case (3 x y ys)
  then show ?case by (simp add: alternatives_bar)
qed

lemma metachar_join:
  "list_ex metachar (join ''|'' ks) \<longleftrightarrow> (\<exists>k \<in> set ks. list_ex metachar k)"
proof (induction "''|''" ks rule: join.induct)
  case 1
  show ?case by simp
next
  case (2 x)
  show ?case by simp
next
  case (3 x y ys)
  have "\<not> metachar CHR ''|''" by (simp add: metachar_def)
  with 3 show ?case by (auto simp: list_ex_iff)
qed

text \<open>
  For keywords without special characters the filter accepts a title exactly when some
  keyword, as it is written, occurs in the lower-cased title.
\<close>

lemma filter_by_keywords_iff:
  assumes "ks \<noteq> []"
    and "\<forall>k \<in> set ks. \<forall>c \<in> set k. \<not> metachar c \<and> c \<noteq> CHR ''|''"
  shows "filter_by_keywords engine t ks = Some (\<exists>k \<in> set ks. \<exists>ps ss. lower t = ps @ k @ ss)"
proof -
  from assms(2) have "\<forall>k \<in> set ks. \<not> list_ex metachar k"
    unfolding list_ex_iff by blast
  then have m: "\<not> list_ex metachar (join ''|'' ks)"
    unfolding metachar_join by blast
  from assms(2) have "\<forall>k \<in> set ks. CHR ''|'' \<notin> set k"
    by blast
  with assms(1) have a: "alternatives (join ''|'' ks) = ks"
    by (rule alternatives_join)
  show ?thesis
    unfolding filter_by_keywords_def re_search_def
    by (simp only: m a if_False search_alternatives_iff)
qed

text \<open>The pre-order sequence holds every section of the tree once.\<close>

lemma length_preorder: "length (preorder s) = section_count s"
proof (induction s)
  case (Section ttl body subs)
  show ?case by (simp add: length_concat comp_def Section.IH cong: map_cong)
qed

lemma length_preorder_all:
  "length (concat (map preorder ss)) = sum_list (map section_count ss)"
  by (simp add: length_concat comp_def length_preorder)

section \<open>Claims on the section text extraction\<close>

text \<open>
  C3: the keyword filter is applied to the top-level sections only. Whatever the library's
  search answers on patterns with special characters, and unless it rejects the pattern
  at some title, the result is made of the non-empty bodies of every accepted top-level
  section and of all its descendants in pre-order, whatever their titles, and of nothing
  from a rejected top-level section (the summary alone when that is empty and the
  fallback is on). For the page Ragnarok and the keyword plot the result is B1, B2.
\<close>

theorem C3_filter_top_level_only:
  "map_option contents (get_page_text engine pg (Some ks) fb st) =
     (if list_ex (\<lambda>s. filter_by_keywords engine (stitle s) ks = None) (sections pg) then None
      else Some (let out = concat (map (\<lambda>s. if filter_by_keywords engine (stitle s) ks = Some True
                                            then nonempty_bodies (preorder s) else [])
                                   (sections pg))
                 in if fb \<and> out = [] then [summary pg] else out)) \<and>
   map_option contents (get_page_text engine ragnarok (Some [''plot'']) fb empty_store) =
     Some [''B1'', ''B2'']"
proof
  have "nonempty_bodies (concat (map preorder
            (filter (\<lambda>s. included engine (Some ks) s = Some True) ss))) =
        concat (map (\<lambda>s. if filter_by_keywords engine (stitle s) ks = Some True
                         then nonempty_bodies (preorder s) else []) ss)" for ss
    by (induction ss)
      (simp_all add: included_def nonempty_bodies_append, simp add: nonempty_bodies_def)
  then show "map_option contents (get_page_text engine pg (Some ks) fb st) =
     (if list_ex (\<lambda>s. filter_by_keywords engine (stitle s) ks = None) (sections pg) then None
      else Some (let out = concat (map (\<lambda>s. if filter_by_keywords engine (stitle s) ks = Some True
                                            then nonempty_bodies (preorder s) else [])
                                   (sections pg))
                 in if fb \<and> out = [] then [summary pg] else out))"
    by (simp add: get_page_text_eq extracted_text_def included_def)
next
  have "map_option contents (get_page_text engine ragnarok (Some [''plot'']) True empty_store) =
     Some [''B1'', ''B2'']"
    by code_simp
  moreover
  have "map_option contents (get_page_text engine ragnarok (Some [''plot'']) False empty_store) =
     Some [''B1'', ''B2'']"
    by code_simp
  ultimately
  show "map_option contents (get_page_text engine ragnarok (Some [''plot'']) fb empty_store) =
     Some [''B1'', ''B2'']"
    by (cases fb) simp_all
qed

text \<open>
  C3 at the page Ragnarok, with two literal keywords that reject the section Plot, and
  with the pattern \<^verbatim>\<open>plot$\<close>, which the library evaluates: the section Plot is accepted with
  its subsection, the section Reception is not.
\<close>

theorem C3_filter_top_level_only_witness:
  "map_option contents
     (get_page_text example_engine ragnarok (Some [''reception'', ''cast'']) True empty_store) =
     Some [''B3''] \<and>
   map_option contents
     (get_page_text example_engine ragnarok (Some [''plot$'']) True empty_store) =
     Some [''B1'', ''B2'']"
proof
  have rhs:
    "(if list_ex (\<lambda>s. filter_by_keywords example_engine (stitle s) [''reception'', ''cast''] = None)
           (sections ragnarok) then None
      else Some (let out = concat (map (\<lambda>s. if filter_by_keywords example_engine (stitle s)
                                                  [''reception'', ''cast''] = Some True
                                            then nonempty_bodies (preorder s) else [])
                                   (sections ragnarok))
                 in if True \<and> out = [] then [summary ragnarok] else out)) = Some [''B3'']"
    by code_simp
  show "map_option contents
     (get_page_text example_engine ragnarok (Some [''reception'', ''cast'']) True empty_store) =
     Some [''B3'']"
    using conjunct1 [OF C3_filter_top_level_only
        [of example_engine ragnarok "[''reception'', ''cast'']" True empty_store]]
    by (simp only: rhs)
next
  have rhs:
    "(if list_ex (\<lambda>s. filter_by_keywords example_engine (stitle s) [''plot$''] = None)
           (sections ragnarok) then None
      else Some (let out = concat (map (\<lambda>s. if filter_by_keywords example_engine (stitle s)
                                                  [''plot$''] = Some True
                                            then nonempty_bodies (preorder s) else [])
                                   (sections ragnarok))
                 in if True \<and> out = [] then [summary ragnarok] else out)) =
     Some [''B1'', ''B2'']"
    by code_simp
  show "map_option contents
     (get_page_text example_engine ragnarok (Some [''plot$'']) True empty_store) =
     Some [''B1'', ''B2'']"
    using conjunct1 [OF C3_filter_top_level_only
        [of example_engine ragnarok "[''plot$'']" True empty_store]]
    by (simp only: rhs)
qed

text \<open>
  C4: when the loop over the top-level sections leaves the list empty and the fallback is
  on, the result is the one-element list of the summary, whatever the summary is; a page
  without sections gives the summary when the fallback is on and the empty list
  otherwise; and the function raises nothing of its own: it gives no result only when the
  library rejects the pattern at the title of a top-level section.
\<close>

theorem C4_summary_fallback:
  "(sections_loop engine (sections pg) kws (fst (new_list st)) (snd (new_list st)) = Some st' \<and>
    cells st' (fst (new_list st)) = [] \<longrightarrow>
      map_option contents (get_page_text engine pg kws True st) = Some [summary pg]) \<and>
   (sections pg = [] \<longrightarrow>
      map_option contents (get_page_text engine pg kws fb st) =
      Some (if fb then [summary pg] else [])) \<and>
   (get_page_text engine pg kws fb st = None \<longleftrightarrow>
      list_ex (\<lambda>s. included engine kws s = None) (sections pg))"
proof (intro conjI impI)
  assume "sections_loop engine (sections pg) kws (fst (new_list st)) (snd (new_list st)) =
      Some st' \<and>
    cells st' (fst (new_list st)) = []"
  then show "map_option contents (get_page_text engine pg kws True st) = Some [summary pg]"
    by (simp add: get_page_text_def new_list_def contents_def py_append_def)
next
  assume "sections pg = []"
  then show "map_option contents (get_page_text engine pg kws fb st) =
      Some (if fb then [summary pg] else [])"
    by (simp add: get_page_text_def new_list_def contents_def py_append_def)
next
  show "get_page_text engine pg kws fb st = None \<longleftrightarrow>
      list_ex (\<lambda>s. included engine kws s = None) (sections pg)"
    by (rule get_page_text_None_iff)
qed

text \<open>
  C4 at a page with an empty summary and one section with an empty body, at a page
  without sections, and at the page Ragnarok with the pattern \<^verbatim>\<open>^xyz$\<close>, which the library
  evaluates and finds in no title, so that the summary is returned.
\<close>

theorem C4_summary_fallback_witness:
  "map_option contents (get_page_text example_engine blank None True empty_store) = Some [[]] \<and>
   map_option contents (get_page_text example_engine stub (Some [''plot'']) True empty_store) =
     Some [''Only a lead''] \<and>
   map_option contents (get_page_text example_engine stub (Some [''plot'']) False empty_store) =
     Some [] \<and>
   get_page_text example_engine blank None True empty_store \<noteq> None \<and>
   map_option contents (get_page_text example_engine ragnarok (Some [''^xyz$'']) True empty_store) =
     Some [''S'']"
proof -
  have "\<exists>st'. sections_loop example_engine (sections blank) None
           (fst (new_list (empty_store :: string store)))
           (snd (new_list empty_store)) = Some st' \<and>
         cells st' (fst (new_list (empty_store :: string store))) = []"
    by (simp add: blank_def new_list_def empty_store_def py_extend_def py_append_def contents_def)
  then obtain st' where h1:
    "sections_loop example_engine (sections blank) None
           (fst (new_list (empty_store :: string store)))
           (snd (new_list empty_store)) = Some st' \<and>
         cells st' (fst (new_list (empty_store :: string store))) = []" ..
  have f1: "filter_by_keywords example_engine ''Plot'' [''^xyz$''] = Some False"
    by code_simp
  have f2: "filter_by_keywords example_engine ''Reception'' [''^xyz$''] = Some False"
    by code_simp
  have "\<exists>st''. sections_loop example_engine (sections ragnarok) (Some [''^xyz$''])
           (fst (new_list (empty_store :: string store)))
           (snd (new_list empty_store)) = Some st'' \<and>
         cells st'' (fst (new_list (empty_store :: string store))) = []"
    by (simp add: ragnarok_def f1 f2 new_list_def empty_store_def)
  then obtain st'' where h4:
    "sections_loop example_engine (sections ragnarok) (Some [''^xyz$''])
           (fst (new_list (empty_store :: string store)))
           (snd (new_list empty_store)) = Some st'' \<and>
         cells st'' (fst (new_list (empty_store :: string store))) = []" ..
  have h2: "sections stub = []" by (simp add: stub_def)
  have s1: "summary blank = []" by (simp add: blank_def)
  have s2: "summary stub = ''Only a lead''" by (simp add: stub_def)
  have s3: "summary ragnarok = ''S''" by (simp add: ragnarok_def)
  have h3: "\<not> list_ex (\<lambda>s. included example_engine None s = None) (sections blank)"
    by (simp add: included_def list_ex_iff)
  note t = C4_summary_fallback [of example_engine blank None empty_store st' True]
  have a: "map_option contents (get_page_text example_engine blank None True empty_store) =
      Some [summary blank]"
    using conjunct1 [OF t] h1 by (rule mp)
  have d: "get_page_text example_engine blank None True empty_store \<noteq> None"
    using conjunct2 [OF conjunct2 [OF t]] h3 by (simp only: simp_thms)
  note u = C4_summary_fallback [of example_engine stub "Some [''plot'']" empty_store st' True]
  note v = C4_summary_fallback [of example_engine stub "Some [''plot'']" empty_store st' False]
  have b: "map_option contents
      (get_page_text example_engine stub (Some [''plot'']) True empty_store) =
     Some (if True then [summary stub] else [])"
    using conjunct1 [OF conjunct2 [OF u]] h2 by (rule mp)
  have c: "map_option contents
      (get_page_text example_engine stub (Some [''plot'']) False empty_store) =
     Some (if False then [summary stub] else [])"
    using conjunct1 [OF conjunct2 [OF v]] h2 by (rule mp)
  note w = C4_summary_fallback
    [of example_engine ragnarok "Some [''^xyz$'']" empty_store st'' True]
  have e: "map_option contents
      (get_page_text example_engine ragnarok (Some [''^xyz$'']) True empty_store) =
     Some [summary ragnarok]"
    using conjunct1 [OF w] h4 by (rule mp)
  from a b c d e show ?thesis by (simp only: s1 s2 s3 if_True if_False simp_thms)
qed

text \<open>
  C5: the inclusion test lower-cases the title and leaves the keywords as they are. The
  title Plot is rejected under the keyword Plot and accepted under the keyword plot, and
  with the keyword Plot nothing of the page Ragnarok is extracted: the test is not
  independent of the letter case of the keywords.
\<close>

theorem C5_upper_case_keyword_never_matches:
  "filter_by_keywords engine ''Plot'' [''Plot''] = Some False \<and>
   filter_by_keywords engine ''Plot'' [''plot''] = Some True \<and>
   map_option contents (get_page_text engine ragnarok (Some [''Plot'']) False empty_store) =
     Some []"
  by code_simp

text \<open>
  C6, as the code has it: with no keyword filter the result is the non-empty bodies of all
  sections at every depth in pre-order, each section being visited once, except that it is
  the summary alone when there is no such body and the fallback is on. A section with an
  empty body adds nothing itself, and its subsections still do.
\<close>

theorem C6_no_filter_preorder_bodies:
  "map_option contents (get_page_text engine pg None fb st) =
     Some (let out = nonempty_bodies (concat (map preorder (sections pg)))
           in if fb \<and> out = [] then [summary pg] else out) \<and>
   length (concat (map preorder (sections pg))) = sum_list (map section_count (sections pg)) \<and>
   map_option contents (get_page_text engine hollow None fb empty_store) = Some [''B4'']"
proof (intro conjI)
  have "\<not> list_ex (\<lambda>s. included engine None s = None) ss" for ss
    by (induction ss) (simp_all add: included_def)
  then show "map_option contents (get_page_text engine pg None fb st) =
     Some (let out = nonempty_bodies (concat (map preorder (sections pg)))
           in if fb \<and> out = [] then [summary pg] else out)"
    by (simp add: get_page_text_eq extracted_text_def included_def)
next
  show "length (concat (map preorder (sections pg))) = sum_list (map section_count (sections pg))"
    by (rule length_preorder_all)
next
  have "map_option contents (get_page_text engine hollow None True empty_store) = Some [''B4'']"
    by code_simp
  moreover
  have "map_option contents (get_page_text engine hollow None False empty_store) = Some [''B4'']"
    by code_simp
  ultimately
  show "map_option contents (get_page_text engine hollow None fb empty_store) = Some [''B4'']"
    by (cases fb) simp_all
qed

text \<open>
  C6 as stated fails when the fallback is on: a page without sections has no body, and
  the result is the summary.
\<close>

theorem C6_fallback_counterexample:
  "map_option contents (get_page_text example_engine stub None True empty_store) \<noteq>
     Some (nonempty_bodies (concat (map preorder (sections stub))))"
  by (simp add: get_page_text_def stub_def new_list_def empty_store_def contents_def
      py_append_def nonempty_bodies_def)

text \<open>
  C10: joining no keywords gives the empty pattern, which is found in every lower-cased
  title, so with an empty keyword list every top-level section is accepted: the call does
  exactly what a call without a keyword filter does, and its result is the non-empty
  bodies of all sections at every depth in pre-order (the summary alone when there is
  none and the fallback is on). For the page Ragnarok the result is B1, B2, B3.
\<close>

theorem C10_empty_keywords_accept_all:
  "join ''|'' [] = [] \<and> filter_by_keywords engine t [] = Some True \<and>
   get_page_text engine pg (Some []) fb st = get_page_text engine pg None fb st \<and>
   map_option contents (get_page_text engine pg (Some []) fb st) =
     Some (let out = nonempty_bodies (concat (map preorder (sections pg)))
           in if fb \<and> out = [] then [summary pg] else out) \<and>
   map_option contents (get_page_text engine ragnarok (Some []) fb empty_store) =
     Some [''B1'', ''B2'', ''B3'']"
proof (intro conjI)
  show "join ''|'' [] = []" by simp
next
  show "filter_by_keywords engine t [] = Some True"
    by (rule filter_by_keywords_no_keywords)
next
  show "get_page_text engine pg (Some []) fb st = get_page_text engine pg None fb st"
    by (simp add: get_page_text_def sections_loop_no_keywords)
next
  have all: "included engine (Some []) s = Some True" for s
    by (simp add: included_def filter_by_keywords_no_keywords)
  show "map_option contents (get_page_text engine pg (Some []) fb st) =
     Some (let out = nonempty_bodies (concat (map preorder (sections pg)))
           in if fb \<and> out = [] then [summary pg] else out)"
    by (simp add: get_page_text_eq extracted_text_def all list_ex_iff)
next
  have "map_option contents (get_page_text engine ragnarok (Some []) True empty_store) =
     Some [''B1'', ''B2'', ''B3'']"
    by code_simp
  moreover
  have "map_option contents (get_page_text engine ragnarok (Some []) False empty_store) =
     Some [''B1'', ''B2'', ''B3'']"
    by code_simp
  ultimately
  show "map_option contents (get_page_text engine ragnarok (Some []) fb empty_store) =
     Some [''B1'', ''B2'', ''B3'']"
    by (cases fb) simp_all
qed

text \<open>
  C10 at the page Ragnarok: the empty keyword list and the absent filter both give every
  body of the page.
\<close>

theorem C10_empty_keywords_accept_all_witness:
  "map_option contents (get_page_text example_engine ragnarok (Some []) False empty_store) =
     Some [''B1'', ''B2'', ''B3''] \<and>
   map_option contents (get_page_text example_engine ragnarok None False empty_store) =
     Some [''B1'', ''B2'', ''B3'']"
proof -
  note t = C10_empty_keywords_accept_all [of example_engine "[]" ragnarok False empty_store]
  have a: "get_page_text example_engine ragnarok (Some []) False empty_store =
      get_page_text example_engine ragnarok None False empty_store"
    by (rule t [THEN conjunct2, THEN conjunct2, THEN conjunct1])
  have b: "map_option contents
      (get_page_text example_engine ragnarok (Some []) False empty_store) =
     Some [''B1'', ''B2'', ''B3'']"
    by (rule t [THEN conjunct2, THEN conjunct2, THEN conjunct2, THEN conjunct2])
  from b show ?thesis unfolding a by simp
qed

end
